theory Spec2Isabelle
  imports Main "HOL-Library.AList"
begin

section \<open>Python strings\<close>

text \<open>
  Python strings are modelled as \<open>string\<close> (lists of \<open>char\<close>), read as ASCII text:
  the digit, letter and whitespace classes below are the ASCII members of Python's classes,
  which is all that \<open>[a-z]\<close>, \<open>[A-Z]\<close> and \<open>[._-]\<close> ever match; a character above
  code 127 is treated as an uncased symbol.
\<close>

definition is_digit :: "char \<Rightarrow> bool" where
  "is_digit c = (48 \<le> (of_char c :: nat) \<and> (of_char c :: nat) \<le> 57)"

definition is_upper :: "char \<Rightarrow> bool" where
  "is_upper c = (65 \<le> (of_char c :: nat) \<and> (of_char c :: nat) \<le> 90)"

definition is_lower :: "char \<Rightarrow> bool" where
  "is_lower c = (97 \<le> (of_char c :: nat) \<and> (of_char c :: nat) \<le> 122)"

definition is_cased :: "char \<Rightarrow> bool" where
  "is_cased c = (is_upper c \<or> is_lower c)"

text \<open>\<open>str.isspace\<close> on ASCII: tab, line feed, vertical tab, form feed, carriage return,
  the four separators 28..31 and the blank.\<close>

definition is_space :: "char \<Rightarrow> bool" where
  "is_space c = ((9 \<le> (of_char c :: nat) \<and> (of_char c :: nat) \<le> 13)
                 \<or> (28 \<le> (of_char c :: nat) \<and> (of_char c :: nat) \<le> 32))"

text \<open>The character class \<open>[._-]\<close>.\<close>

definition is_separator :: "char \<Rightarrow> bool" where
  "is_separator c = (c = CHR ''.'' \<or> c = CHR ''_'' \<or> c = CHR ''-'')"

definition upper_char :: "char \<Rightarrow> char" where
  "upper_char c = (if is_lower c then char_of ((of_char c :: nat) - 32) else c)"

definition lower_char :: "char \<Rightarrow> char" where
  "lower_char c = (if is_upper c then char_of ((of_char c :: nat) + 32) else c)"

text \<open>\<open>str.upper()\<close> and \<open>str.lower()\<close>.\<close>

definition upper :: "string \<Rightarrow> string" where
  "upper s = map upper_char s"

definition lower :: "string \<Rightarrow> string" where
  "lower s = map lower_char s"

text \<open>
  \<open>str.title()\<close>: a cased character is upper-cased when the character before it is
  uncased (or there is none) and lower-cased when the character before it is cased;
  every other character is kept. The flag is "the previous character was cased".
\<close>

fun title_from :: "bool \<Rightarrow> string \<Rightarrow> string" where
  "title_from prev [] = []"
| "title_from prev (c # cs) =
     (if is_cased c then (if prev then lower_char c else upper_char c) else c)
       # title_from (is_cased c) cs"

definition title :: "string \<Rightarrow> string" where
  "title s = title_from False s"

text \<open>\<open>s.split(d)\<close> for a one-character delimiter: empty pieces are kept, and the result
  always has at least one piece.\<close>

fun split_str :: "char \<Rightarrow> string \<Rightarrow> string list" where
  "split_str d [] = [[]]"
| "split_str d (c # cs) =
     (if c = d then [] # split_str d cs
      else (case split_str d cs of [] \<Rightarrow> [[c]] | p # ps \<Rightarrow> (c # p) # ps))"

text \<open>\<open>sep.join(parts)\<close>.\<close>

fun join :: "string \<Rightarrow> string list \<Rightarrow> string" where
  "join sep [] = []"
| "join sep [p] = p"
| "join sep (p # q # ps) = p @ sep @ join sep (q # ps)"

text \<open>\<open>s.startswith(p)\<close>, \<open>p in s\<close> and \<open>s.find(p)\<close> (\<open>None\<close> stands for \<open>-1\<close>).\<close>

fun startswith :: "string \<Rightarrow> string \<Rightarrow> bool" where
  "startswith s [] = True"
| "startswith [] (p # ps) = False"
| "startswith (c # cs) (p # ps) = (c = p \<and> startswith cs ps)"

fun find_str :: "string \<Rightarrow> string \<Rightarrow> nat option" where
  "find_str [] p = (if p = [] then Some 0 else None)"
| "find_str (c # cs) p =
     (if startswith (c # cs) p then Some 0 else map_option Suc (find_str cs p))"

definition contains :: "string \<Rightarrow> string \<Rightarrow> bool" where
  "contains s p = (find_str s p \<noteq> None)"

text \<open>
  \<open>re.sub(r'C+$', '', s)\<close> for a character class \<open>C\<close> that does not contain the line
  feed: \<open>$\<close> matches at the end of the string and also just before a line feed that is the
  last character, so the run of \<open>C\<close> characters that is removed is the one ending there.
\<close>

definition sub_trailing :: "(char \<Rightarrow> bool) \<Rightarrow> string \<Rightarrow> string" where
  "sub_trailing C s =
     (if s \<noteq> [] \<and> last s = CHR 0x0A
      then rev (dropWhile C (rev (butlast s))) @ [CHR 0x0A]
      else rev (dropWhile C (rev s)))"

text \<open>\<open>s.strip()\<close> and \<open>s.strip(chars)\<close>.\<close>

definition strip_where :: "(char \<Rightarrow> bool) \<Rightarrow> string \<Rightarrow> string" where
  "strip_where C s = rev (dropWhile C (rev (dropWhile C s)))"

definition strip :: "string \<Rightarrow> string" where
  "strip s = strip_where is_space s"

definition strip_chars :: "string \<Rightarrow> string \<Rightarrow> string" where
  "strip_chars chars s = strip_where (\<lambda>c. c \<in> set chars) s"

text \<open>\<open>re.search(r'[a-z][A-Z]', s)\<close> finds a match.\<close>

fun search_lower_upper :: "string \<Rightarrow> bool" where
  "search_lower_upper (a # b # cs) = ((is_lower a \<and> is_upper b) \<or> search_lower_upper (b # cs))"
| "search_lower_upper _ = False"

text \<open>
  \<open>re.findall(r'[A-Z][a-z]*|[a-z]+', s)\<close>: scanning from the left, a capital takes the
  run of small letters after it, a small letter starts a run of small letters, any other
  character is skipped.
\<close>

function findall_words :: "string \<Rightarrow> string list" where
  "findall_words [] = []"
| "findall_words (c # cs) =
     (if is_upper c \<or> is_lower c
      then (c # takeWhile is_lower cs) # findall_words (dropWhile is_lower cs)
      else findall_words cs)"
  by pat_completeness auto
termination
  by (relation "measure length") (auto simp: length_dropWhile_le less_Suc_eq_le)

section \<open>Names from email addresses\<close>

text \<open>\<open>CalendarAgent._smart_split_name\<close>.\<close>

definition common_prefixes :: "string list" where
  "common_prefixes = [''mr'', ''ms'', ''dr'', ''prof'']"

definition common_locations :: "string list" where
  "common_locations = [''in'', ''san'', ''los'', ''new'', ''north'', ''south'', ''east'', ''west'']"

text \<open>The loop over the prefixes: the first prefix that fits returns.\<close>

fun try_prefixes :: "string list \<Rightarrow> string \<Rightarrow> string option" where
  "try_prefixes [] name = None"
| "try_prefixes (prefix # rest) name =
     (if startswith (lower name) prefix \<and> length name > length prefix
      then Some (title prefix @ '' '' @ title (drop (length prefix) name))
      else try_prefixes rest name)"

text \<open>The loop over the locations: a location found at an index of at most 2 is passed over.\<close>

fun try_locations :: "string list \<Rightarrow> string \<Rightarrow> string option" where
  "try_locations [] name = None"
| "try_locations (loc # rest) name =
     (if contains (lower name) loc \<and> length name > length loc + 3
      then (case find_str (lower name) loc of
              Some idx \<Rightarrow>
                (if idx > 2 then Some (title (take idx name) @ '' '' @ title (drop idx name))
                 else try_locations rest name)
            | None \<Rightarrow> try_locations rest name)
      else try_locations rest name)"

definition smart_split_name :: "string \<Rightarrow> string" where
  "smart_split_name name =
     (if search_lower_upper name then join '' '' (findall_words name)
      else (case try_prefixes common_prefixes name of
              Some r \<Rightarrow> r
            | None \<Rightarrow>
                (case try_locations common_locations name of
                   Some r \<Rightarrow> r
                 | None \<Rightarrow> name)))"

text \<open>The part of \<open>_extract_name_from_email\<close> that both classes share: the text before the
  first \<open>@\<close>, without its trailing digits and then without its trailing separators.\<close>

definition local_part :: "string \<Rightarrow> string" where
  "local_part email =
     (case split_str CHR ''@'' email of
        [] \<Rightarrow> []
      | before_at # _ \<Rightarrow> sub_trailing is_separator (sub_trailing is_digit before_at))"

text \<open>\<open>' '.join(part.title() for part in parts if part)\<close>.\<close>

definition join_titles :: "string list \<Rightarrow> string" where
  "join_titles parts = join '' '' (map title (filter (\<lambda>part. part \<noteq> []) parts))"

text \<open>The branches on \<open>.\<close>, \<open>_\<close> and \<open>-\<close>; the last branch is given by the caller.\<close>

definition name_from_local_part :: "(string \<Rightarrow> string) \<Rightarrow> string \<Rightarrow> string" where
  "name_from_local_part single lp =
     (if CHR ''.'' \<in> set lp then
        (case split_str CHR ''.'' lp of
           [first_part, last_part] \<Rightarrow>
             (if length first_part = 1 then upper first_part @ '' '' @ title last_part
              else title first_part @ '' '' @ title last_part)
         | parts \<Rightarrow> join_titles parts)
      else if CHR ''_'' \<in> set lp then join_titles (split_str CHR ''_'' lp)
      else if CHR ''-'' \<in> set lp then join_titles (split_str CHR ''-'' lp)
      else single lp)"

text \<open>\<open>CalendarAgent._extract_name_from_email\<close>: a single word goes through
  \<open>_smart_split_name\<close> after \<open>title()\<close>.\<close>

definition extract_name_from_email :: "string \<Rightarrow> string" where
  "extract_name_from_email email =
     (if email = [] then ''Unknown''
      else name_from_local_part (\<lambda>lp. smart_split_name (title lp)) (local_part email))"

text \<open>\<open>AttendeeInfo._extract_name_from_email\<close>: a single word is only title-cased.\<close>

definition attendee_extract_name_from_email :: "string \<Rightarrow> string" where
  "attendee_extract_name_from_email email =
     (if email = [] then ''Unknown''
      else name_from_local_part title (local_part email))"

section \<open>Attendees of one event\<close>

text \<open>\<open>d.get(key, default)\<close> on a field that may be absent.\<close>

definition dict_get :: "'a option \<Rightarrow> 'a \<Rightarrow> 'a" where
  "dict_get field dflt = (case field of None \<Rightarrow> dflt | Some v \<Rightarrow> v)"

text \<open>The dataclass \<open>AttendeeInfo\<close>; \<open>new_AttendeeInfo\<close> is its constructor followed by
  \<open>__post_init__\<close>, which overwrites \<open>display_name\<close>.\<close>

record AttendeeInfo =
  name :: string
  email :: string
  display_name :: string

definition new_AttendeeInfo :: "string \<Rightarrow> string \<Rightarrow> AttendeeInfo" where
  "new_AttendeeInfo nm em =
     \<lparr>name = nm, email = em,
      display_name =
        (if nm \<noteq> [] then nm
         else if em \<noteq> [] then attendee_extract_name_from_email em
         else ''Unknown'')\<rparr>"

text \<open>The fields that the code reads from an attendee, from the organizer and from an event
  of the calendar payload; \<open>None\<close> is a key that the payload does not have.\<close>

record RawAttendee =
  raw_email :: "string option"
  raw_displayName :: "string option"
  raw_name :: "string option"
  raw_cn :: "string option"

record RawOrganizer =
  org_email :: "string option"
  org_displayName :: "string option"
  org_name :: "string option"

record RawEvent =
  ev_organizer :: "RawOrganizer option"
  ev_attendees :: "RawAttendee list option"

definition empty_organizer :: RawOrganizer where
  "empty_organizer = \<lparr>org_email = None, org_displayName = None, org_name = None\<rparr>"

text \<open>The name of an attendee from the payload's own fields: \<open>displayName\<close>, then
  \<open>name\<close>, then \<open>cn\<close>.\<close>

definition attendee_field_name :: "RawAttendee \<Rightarrow> string" where
  "attendee_field_name attendee =
     (let n1 = dict_get (raw_displayName attendee) [];
          n2 = (if n1 = [] then dict_get (raw_name attendee) [] else n1)
      in if n2 = [] then dict_get (raw_cn attendee) [] else n2)"

text \<open>One round of the loop of \<open>extract_attendee_info\<close>: \<open>None\<close> is the \<open>continue\<close>.\<close>

definition extract_one_attendee :: "RawAttendee \<Rightarrow> AttendeeInfo option" where
  "extract_one_attendee attendee =
     (let em = dict_get (raw_email attendee) [];
          nm = attendee_field_name attendee
      in if em = [] then None
         else Some (new_AttendeeInfo (if nm = [] then extract_name_from_email em else nm) em))"

text \<open>The organizer part of \<open>extract_attendee_info\<close>: the pair of organizer name and
  organizer email.\<close>

definition extract_organizer :: "RawEvent \<Rightarrow> string \<times> string" where
  "extract_organizer event =
     (let organizer_info = dict_get (ev_organizer event) empty_organizer;
          o_email = dict_get (org_email organizer_info) [];
          o_name1 = dict_get (org_displayName organizer_info) [];
          o_name2 = (if o_name1 = [] then dict_get (org_name organizer_info) [] else o_name1);
          o_name3 = (if o_name2 = [] \<and> o_email \<noteq> [] then extract_name_from_email o_email
                     else o_name2)
      in (o_name3, o_email))"

text \<open>\<open>CalendarAgent.extract_attendee_info\<close>.\<close>

definition extract_attendee_info :: "RawEvent \<Rightarrow> AttendeeInfo list \<times> string \<times> string" where
  "extract_attendee_info event =
     (List.map_filter extract_one_attendee (dict_get (ev_attendees event) []),
      extract_organizer event)"

text \<open>
  \<open>CalendarAgent.extract_attendee_info_enhanced\<close>. The two lookups are the methods
  \<open>get_contact_name_from_people_api\<close> and \<open>get_contact_name_from_gmail_api\<close>; each is
  \<open>None\<close> when its service is not set, and answers \<open>None\<close> for an email without a name.
\<close>

definition lookup_name :: "(string \<Rightarrow> string option) option \<Rightarrow> string \<Rightarrow> string \<Rightarrow> string" where
  "lookup_name service em nm =
     (if nm = [] then
        (case service of
           None \<Rightarrow> nm
         | Some api \<Rightarrow> (case api em of None \<Rightarrow> nm | Some found \<Rightarrow> if found \<noteq> [] then found else nm))
      else nm)"

definition extract_one_attendee_enhanced ::
  "(string \<Rightarrow> string option) option \<Rightarrow> (string \<Rightarrow> string option) option \<Rightarrow>
   RawAttendee \<Rightarrow> AttendeeInfo option" where
  "extract_one_attendee_enhanced people_service gmail_service attendee =
     (let em = dict_get (raw_email attendee) [];
          nm = attendee_field_name attendee
      in if em = [] then None
         else
           (let nm1 = lookup_name people_service em nm;
                nm2 = lookup_name gmail_service em nm1
            in Some (new_AttendeeInfo (if nm2 = [] then extract_name_from_email em else nm2) em)))"

definition extract_organizer_enhanced ::
  "(string \<Rightarrow> string option) option \<Rightarrow> RawEvent \<Rightarrow> string \<times> string" where
  "extract_organizer_enhanced people_service event =
     (let organizer_info = dict_get (ev_organizer event) empty_organizer;
          o_email = dict_get (org_email organizer_info) [];
          o_name1 = dict_get (org_displayName organizer_info) [];
          o_name2 = (if o_name1 = [] then dict_get (org_name organizer_info) [] else o_name1);
          o_name3 = (if o_email \<noteq> [] then lookup_name people_service o_email o_name2 else o_name2);
          o_name4 = (if o_name3 = [] \<and> o_email \<noteq> [] then extract_name_from_email o_email
                     else o_name3)
      in (o_name4, o_email))"

definition extract_attendee_info_enhanced ::
  "(string \<Rightarrow> string option) option \<Rightarrow> (string \<Rightarrow> string option) option \<Rightarrow>
   RawEvent \<Rightarrow> AttendeeInfo list \<times> string \<times> string" where
  "extract_attendee_info_enhanced people_service gmail_service event =
     (List.map_filter (extract_one_attendee_enhanced people_service gmail_service)
        (dict_get (ev_attendees event) []),
      extract_organizer_enhanced people_service event)"

section \<open>Names from mail headers\<close>

text \<open>
  The body of the header loop of \<open>get_contact_name_from_gmail_api\<close> for one \<open>From\<close>
  value: \<open>Some\<close> is a \<open>return\<close>, \<open>None\<close> lets the loop go on. In the second layout
  \<open>split('(')[1]\<close> exists because the value contains \<open>(\<close>.
\<close>

definition parse_from_field :: "string \<Rightarrow> string \<Rightarrow> string option" where
  "parse_from_field from_field em =
     (if CHR ''<'' \<in> set from_field \<and> CHR ''>'' \<in> set from_field then
        (case split_str CHR ''<'' from_field of
           [] \<Rightarrow> None
         | before # _ \<Rightarrow>
             (let name_part = strip before
              in if name_part \<noteq> [] \<and> name_part \<noteq> em
                 then Some (strip_chars [CHR 0x22, CHR 0x27] name_part)
                 else None))
      else if CHR ''('' \<in> set from_field \<and> CHR '')'' \<in> set from_field then
        (case split_str CHR ''('' from_field of
           _ # after # _ \<Rightarrow>
             (case split_str CHR '')'' after of
                [] \<Rightarrow> None
              | inside # _ \<Rightarrow>
                  (let name_part = strip inside
                   in if name_part \<noteq> [] \<and> name_part \<noteq> em then Some name_part else None))
         | _ \<Rightarrow> None)
      else None)"

record Header =
  h_name :: "string option"
  h_value :: "string option"

text \<open>The loop over the headers of one message and the loop over the messages.\<close>

fun scan_headers :: "Header list \<Rightarrow> string \<Rightarrow> string option" where
  "scan_headers [] em = None"
| "scan_headers (header # rest) em =
     (if lower (dict_get (h_name header) []) = ''from''
      then (case parse_from_field (dict_get (h_value header) []) em of
              Some found \<Rightarrow> Some found
            | None \<Rightarrow> scan_headers rest em)
      else scan_headers rest em)"

fun scan_messages :: "Header list list \<Rightarrow> string \<Rightarrow> string option" where
  "scan_messages [] em = None"
| "scan_messages (headers # rest) em =
     (case scan_headers headers em of
        Some found \<Rightarrow> Some found
      | None \<Rightarrow> scan_messages rest em)"

section \<open>Attendees of one day\<close>

text \<open>Of \<open>datetime\<close> and of the dataclass \<open>MeetingInfo\<close>, the fields that the day report
  reads.\<close>

record datetime =
  hour :: nat
  minute :: nat

record MeetingInfo =
  meeting_title :: string
  start_time :: "datetime option"
  attendees :: "AttendeeInfo list"
  organizer_name :: string
  organizer_email :: string

text \<open>\<open>strftime('%H:%M')\<close>: two digits each, which hours and minutes always fit.\<close>

definition two_digits :: "nat \<Rightarrow> string" where
  "two_digits n = [char_of (48 + n div 10 mod 10), char_of (48 + n mod 10)]"

definition strftime_HM :: "datetime \<Rightarrow> string" where
  "strftime_HM t = two_digits (hour t) @ '':'' @ two_digits (minute t)"

definition get_attendee_display_names :: "MeetingInfo \<Rightarrow> string list" where
  "get_attendee_display_names meeting = map display_name (attendees meeting)"

definition get_attendee_emails :: "MeetingInfo \<Rightarrow> string list" where
  "get_attendee_emails meeting =
     map email (filter (\<lambda>attendee. email attendee \<noteq> []) (attendees meeting))"

text \<open>
  A Python \<open>dict\<close> keeps its keys in the order of their first insertion, and the report
  depends on that order, so a dict is an association list: \<open>AList.update\<close> overwrites the
  value of a key in place and appends a new key at the end; \<open>map_of\<close> reads.
\<close>

type_synonym 'v dict = "(string \<times> 'v) list"

text \<open>The dict stored per meeting title, and one entry of \<open>most_frequent_attendees\<close>.\<close>

record MeetingAttendees =
  ma_attendees :: "(string \<times> string) list"
  ma_attendee_names :: "string list"
  ma_attendee_emails :: "string list"
  ma_organizer_name :: string
  ma_organizer_email :: string
  ma_time :: string

record FrequentAttendee =
  fa_name :: string
  fa_email :: string
  fa_meeting_count :: int

text \<open>The inner loop over the attendees of a meeting: \<open>attendee_details\<close> is the list of
  (name, email) pairs, the two dicts are only touched for a non-empty email.\<close>

definition attendee_details :: "MeetingInfo \<Rightarrow> (string \<times> string) list" where
  "attendee_details meeting = map (\<lambda>attendee. (display_name attendee, email attendee)) (attendees meeting)"

fun track_attendee :: "AttendeeInfo \<Rightarrow> int dict \<times> string dict \<Rightarrow> int dict \<times> string dict" where
  "track_attendee attendee (attendee_frequency, attendee_name_mapping) =
     (if email attendee \<noteq> []
      then (AList.update (email attendee)
              (dict_get (map_of attendee_frequency (email attendee)) 0 + 1) attendee_frequency,
            AList.update (email attendee) (display_name attendee) attendee_name_mapping)
      else (attendee_frequency, attendee_name_mapping))"

definition meeting_entry :: "MeetingInfo \<Rightarrow> MeetingAttendees" where
  "meeting_entry meeting =
     \<lparr>ma_attendees = attendee_details meeting,
      ma_attendee_names = get_attendee_display_names meeting,
      ma_attendee_emails = get_attendee_emails meeting,
      ma_organizer_name = organizer_name meeting,
      ma_organizer_email = organizer_email meeting,
      ma_time = (case start_time meeting of None \<Rightarrow> ''Unknown'' | Some t \<Rightarrow> strftime_HM t)\<rparr>"

text \<open>One round of the loop over the meetings, on the three dicts.\<close>

fun track_meeting ::
  "MeetingInfo \<Rightarrow> (int dict \<times> string dict) \<times> MeetingAttendees dict \<Rightarrow>
   (int dict \<times> string dict) \<times> MeetingAttendees dict" where
  "track_meeting meeting (counts, meeting_attendee_mapping) =
     (fold track_attendee (attendees meeting) counts,
      AList.update (meeting_title meeting) (meeting_entry meeting) meeting_attendee_mapping)"

definition track_meetings ::
  "MeetingInfo list \<Rightarrow> (int dict \<times> string dict) \<times> MeetingAttendees dict" where
  "track_meetings ms = fold track_meeting ms (([], []), [])"

text \<open>
  \<open>sorted(items, key=lambda x: x[1], reverse=True)\<close>: Python's sort is stable also with
  \<open>reverse=True\<close>; it reverses the list, sorts it stably in ascending order and reverses
  the result.
\<close>

definition sorted_reverse :: "int dict \<Rightarrow> int dict" where
  "sorted_reverse items = rev (sort_key snd (rev items))"

definition frequent_attendees :: "int dict \<Rightarrow> string dict \<Rightarrow> FrequentAttendee list" where
  "frequent_attendees attendee_frequency attendee_name_mapping =
     map (\<lambda>(em, count).
            \<lparr>fa_name = dict_get (map_of attendee_name_mapping em) em,
             fa_email = em, fa_meeting_count = count\<rparr>)
       (take 10 (sorted_reverse attendee_frequency))"

text \<open>
  The result of \<open>get_attendee_info_for_day\<close> is one of two dicts: the one with the single
  key \<open>message\<close>, or the report with the seven keys below.
\<close>

record AttendeeReport =
  r_date :: string
  r_total_meetings :: int
  r_unique_attendees :: int
  r_meeting_attendee_details :: "MeetingAttendees dict"
  r_most_frequent_attendees :: "FrequentAttendee list"
  r_all_attendee_emails :: "string list"
  r_all_attendee_names :: "string list"

datatype AttendeeDayResult = Message string | Report AttendeeReport

text \<open>The value under the key \<open>unique_attendees\<close>, when the result has that key.\<close>

fun unique_attendees_of :: "AttendeeDayResult \<Rightarrow> int option" where
  "unique_attendees_of (Message _) = None"
| "unique_attendees_of (Report r) = Some (r_unique_attendees r)"

text \<open>
  \<open>_analyze_day_events\<close> returns a dict of mixed values. The summary of a day without
  meetings has the single key \<open>summary\<close>; the statistics of a day with meetings (which
  include the text written by the language model) are a parameter.
\<close>

datatype pyval = PStr string | PInt int | PList "pyval list"

type_synonym summary_info = "pyval dict"

definition analyze_day_events ::
  "(MeetingInfo list \<Rightarrow> string \<Rightarrow> summary_info) \<Rightarrow> MeetingInfo list \<Rightarrow> string \<Rightarrow> summary_info" where
  "analyze_day_events statistics ms target_date =
     (if ms = [] then [(''summary'', PStr ''No events scheduled for this day'')]
      else statistics ms target_date)"

text \<open>The dataclass \<open>DayEventsInfo\<close>, and the value that \<open>get_events_for_day\<close> builds
  from the processed meetings of the day.\<close>

record DayEventsInfo =
  date :: string
  total_events :: int
  meetings :: "MeetingInfo list"
  summary :: summary_info

definition day_events_of ::
  "(MeetingInfo list \<Rightarrow> string \<Rightarrow> summary_info) \<Rightarrow> string \<Rightarrow> MeetingInfo list \<Rightarrow> DayEventsInfo" where
  "day_events_of statistics target_date ms =
     \<lparr>date = target_date, total_events = int (length ms), meetings = ms,
      summary = analyze_day_events statistics ms target_date\<rparr>"

text \<open>\<open>get_attendee_info_for_day\<close>, from the \<open>DayEventsInfo\<close> that \<open>get_events_for_day\<close>
  returned.\<close>

definition get_attendee_info_for_day :: "string \<Rightarrow> DayEventsInfo \<Rightarrow> AttendeeDayResult" where
  "get_attendee_info_for_day target_date day_events =
     (if total_events day_events = 0 then Message ''No events found for this date''
      else
        (case track_meetings (meetings day_events) of
           ((attendee_frequency, attendee_name_mapping), meeting_attendee_mapping) \<Rightarrow>
             Report
               \<lparr>r_date = target_date,
                r_total_meetings = total_events day_events,
                r_unique_attendees = int (length attendee_frequency),
                r_meeting_attendee_details = meeting_attendee_mapping,
                r_most_frequent_attendees =
                  frequent_attendees attendee_frequency attendee_name_mapping,
                r_all_attendee_emails = map fst attendee_frequency,
                r_all_attendee_names = map snd attendee_name_mapping\<rparr>))"

text \<open>
  The three dicts when the loop over the meetings \<open>ms\<close> has ended, and two notions to talk
  about them: all attendees of the day in the order in which the iteration visits them, and
  those of them that carry a given email.
\<close>

definition attendee_frequency_of :: "MeetingInfo list \<Rightarrow> int dict" where
  "attendee_frequency_of ms = fst (fst (track_meetings ms))"

definition attendee_name_mapping_of :: "MeetingInfo list \<Rightarrow> string dict" where
  "attendee_name_mapping_of ms = snd (fst (track_meetings ms))"

definition meeting_attendee_mapping_of :: "MeetingInfo list \<Rightarrow> MeetingAttendees dict" where
  "meeting_attendee_mapping_of ms = snd (track_meetings ms)"

definition all_attendees :: "MeetingInfo list \<Rightarrow> AttendeeInfo list" where
  "all_attendees ms = concat (map attendees ms)"

definition with_email :: "string \<Rightarrow> AttendeeInfo list \<Rightarrow> AttendeeInfo list" where
  "with_email e as = filter (\<lambda>a. email a = e) as"

section \<open>Rules in the wording of the specification\<close>

text \<open>
  The dot rule as the specification words it: a one-character first part of exactly two
  parts is an initial, and otherwise each dot-separated part is title-cased and the parts
  are joined with a single space.
\<close>

definition dot_rule_as_stated :: "string \<Rightarrow> string" where
  "dot_rule_as_stated lp =
     (case split_str CHR ''.'' lp of
        [first_part, last_part] \<Rightarrow>
          (if length first_part = 1 then upper first_part @ '' '' @ title last_part
           else join '' '' (map title [first_part, last_part]))
      | parts \<Rightarrow> join '' '' (map title parts))"

text \<open>
  The first header layout as the specification words it: the text before \<open><\<close>, trimmed
  and without one layer of surrounding quote characters, returned only if it is not empty
  and differs from the known email.
\<close>

definition is_quote :: "char \<Rightarrow> bool" where
  "is_quote c = (c = CHR 0x22 \<or> c = CHR 0x27)"

definition strip_one_quote_layer :: "string \<Rightarrow> string" where
  "strip_one_quote_layer s =
     (if 2 \<le> length s \<and> is_quote (hd s) \<and> is_quote (last s) then butlast (tl s) else s)"

definition from_header_as_stated :: "string \<Rightarrow> string \<Rightarrow> string option" where
  "from_header_as_stated from_field known_email =
     (let name_part = strip_one_quote_layer (strip (takeWhile (\<lambda>c. c \<noteq> CHR ''<'') from_field))
      in if name_part \<noteq> [] \<and> name_part \<noteq> known_email then Some name_part else None)"

text \<open>
  The order of first encounter: the non-empty emails in the order in which the iteration over
  the meetings and their attendees meets them, and "\<open>x\<close> is met before \<open>y\<close> is first met"
  in a list.
\<close>

definition encounter_order :: "MeetingInfo list \<Rightarrow> string list" where
  "encounter_order ms = filter (\<lambda>e. e \<noteq> []) (map email (all_attendees ms))"

definition comes_before :: "'a \<Rightarrow> 'a \<Rightarrow> 'a list \<Rightarrow> bool" where
  "comes_before x y xs = (x \<in> set (takeWhile (\<lambda>z. z \<noteq> y) xs))"

section \<open>Characters and title case\<close>

lemma lower_char_not_upper: "\<not> is_upper (lower_char c)"
  by (auto simp: lower_char_def is_upper_def)

lemma upper_char_not_lower: "\<not> is_lower (upper_char c)"
  by (auto simp: upper_char_def is_lower_def)

text \<open>After \<open>title()\<close> no small letter is followed by a capital: a letter after a letter
  has been lower-cased.\<close>

lemma title_from_no_camel: "\<not> search_lower_upper (title_from prev s)"
proof (induction s arbitrary: prev)
  case Nil
  show ?case by simp
next
  case (Cons a s)
  show ?case
  proof (cases s)
    case Nil
    then show ?thesis by simp
  next
    case (Cons b cs)
    have tail: "\<not> search_lower_upper (title_from (is_cased a) (b # cs))"
      using Cons.IH [of "is_cased a"] Cons by simp
    show ?thesis
      using tail unfolding Cons
      by (auto simp: lower_char_not_upper upper_char_not_lower is_cased_def)
  qed
qed

lemma length_title_from [simp]: "length (title_from prev s) = length s"
  by (induction s arbitrary: prev) auto

lemma title_eq_Nil [simp]: "title s = [] \<longleftrightarrow> s = []"
  by (metis length_title_from length_0_conv title_def)

section \<open>Splitting and joining\<close>

lemma split_str_not_Nil [simp]: "split_str d s \<noteq> []"
  by (induction s) (auto split: list.splits)

lemma split_str_first: "\<exists>rest. split_str d s = takeWhile (\<lambda>c. c \<noteq> d) s # rest"
  by (induction s) (auto split: list.splits)

lemma split_str_no_delim: "d \<notin> set s \<Longrightarrow> split_str d s = [s]"
  by (induction s) auto

lemma split_str_append: "d \<notin> set p \<Longrightarrow> split_str d (p @ d # s) = p # split_str d s"
  by (induction p) auto

text \<open>Joining the pieces with the delimiter gives the string back.\<close>

lemma join_split_str: "join [d] (split_str d s) = s"
proof (induction s)
  case Nil
  show ?case by simp
next
  case (Cons c s)
  obtain p ps where ps: "split_str d s = p # ps"
    by (cases "split_str d s") auto
  show ?case
    using Cons ps by (cases ps) auto
qed

lemma last_split_str: "s \<noteq> [] \<Longrightarrow> last s \<noteq> d \<Longrightarrow> last (split_str d s) \<noteq> []"
proof (induction s)
  case Nil
  then show ?case by simp
next
  case (Cons c s)
  show ?case
  proof (cases "s = []")
    case True
    with Cons.prems show ?thesis by simp
  next
    case False
    with Cons have "last (split_str d s) \<noteq> []" by simp
    then show ?thesis
      by (cases "split_str d s") (auto split: list.splits if_splits)
  qed
qed

lemma join_not_Nil: "p \<in> set ps \<Longrightarrow> p \<noteq> [] \<Longrightarrow> join sep ps \<noteq> []"
  by (induction sep ps rule: join.induct) auto

lemma join_titles_not_Nil: "p \<in> set parts \<Longrightarrow> p \<noteq> [] \<Longrightarrow> join_titles parts \<noteq> []"
  unfolding join_titles_def
  by (rule join_not_Nil [where p = "title p"]) auto

lemma join_titles_split_not_Nil:
  assumes "lp \<noteq> []" "last lp \<noteq> d"
  shows "join_titles (split_str d lp) \<noteq> []"
proof -
  have "last (split_str d lp) \<in> set (split_str d lp)" by simp
  moreover have "last (split_str d lp) \<noteq> []" using assms by (rule last_split_str)
  ultimately show ?thesis by (rule join_titles_not_Nil)
qed

section \<open>The name heuristic\<close>

text \<open>What is left after \<open>re.sub\<close> ends with a line feed or with a character outside the
  class.\<close>

lemma sub_trailing_last:
  "sub_trailing C s \<noteq> [] \<Longrightarrow> last (sub_trailing C s) = CHR 0x0A \<or> \<not> C (last (sub_trailing C s))"
proof (cases "s \<noteq> [] \<and> last s = CHR 0x0A")
  case True
  then show ?thesis by (simp add: sub_trailing_def)
next
  case False
  assume ne: "sub_trailing C s \<noteq> []"
  from False have eq: "sub_trailing C s = rev (dropWhile C (rev s))"
    by (auto simp: sub_trailing_def)
  with ne have "dropWhile C (rev s) \<noteq> []" by simp
  then have "\<not> C (hd (dropWhile C (rev s)))" by (rule hd_dropWhile)
  moreover have "last (sub_trailing C s) = hd (dropWhile C (rev s))"
    using eq by (simp add: last_rev)
  ultimately show ?thesis by simp
qed

lemma local_part_last:
  "local_part em \<noteq> [] \<Longrightarrow> last (local_part em) = CHR 0x0A \<or> \<not> is_separator (last (local_part em))"
  unfolding local_part_def
  by (auto split: list.splits dest: sub_trailing_last)

lemma try_prefixes_not_Nil: "try_prefixes ps nm = Some r \<Longrightarrow> r \<noteq> []"
  by (induction ps) (auto split: if_splits)

lemma try_locations_not_Nil: "try_locations ls nm = Some r \<Longrightarrow> r \<noteq> []"
  by (induction ls) (auto split: if_splits option.splits)

lemma smart_split_name_not_Nil:
  assumes "nm \<noteq> []" "\<not> search_lower_upper nm"
  shows "smart_split_name nm \<noteq> []"
  using assms
  by (auto simp: smart_split_name_def split: option.splits
           dest: try_prefixes_not_Nil try_locations_not_Nil)

text \<open>In \<open>_extract_name_from_email\<close> the camel-case branch of \<open>_smart_split_name\<close> is
  dead: its argument has been through \<open>title()\<close>.\<close>

lemma single_word_never_camel:
  "smart_split_name (title lp) =
     (case try_prefixes common_prefixes (title lp) of
        Some r \<Rightarrow> r
      | None \<Rightarrow> (case try_locations common_locations (title lp) of Some r \<Rightarrow> r | None \<Rightarrow> title lp))"
proof -
  have "\<not> search_lower_upper (title lp)"
    unfolding title_def by (rule title_from_no_camel)
  then show ?thesis by (simp add: smart_split_name_def)
qed

lemma name_from_local_part_not_Nil:
  assumes "lp \<noteq> []" "last lp = CHR 0x0A \<or> \<not> is_separator (last lp)"
    and single: "single lp \<noteq> []"
  shows "name_from_local_part single lp \<noteq> []"
proof -
  have l: "last lp \<noteq> CHR ''.''" "last lp \<noteq> CHR ''_''" "last lp \<noteq> CHR ''-''"
    using assms(2) by (auto simp: is_separator_def)
  have dot: "join_titles (split_str CHR ''.'' lp) \<noteq> []"
    using assms(1) l(1) by (rule join_titles_split_not_Nil)
  have us: "join_titles (split_str CHR ''_'' lp) \<noteq> []"
    using assms(1) l(2) by (rule join_titles_split_not_Nil)
  have hy: "join_titles (split_str CHR ''-'' lp) \<noteq> []"
    using assms(1) l(3) by (rule join_titles_split_not_Nil)
  show ?thesis
    using dot us hy single
    by (auto simp: name_from_local_part_def split: list.splits)
qed

lemma extract_name_from_email_not_Nil:
  assumes "local_part em \<noteq> []"
  shows "extract_name_from_email em \<noteq> []"
proof (cases "em = []")
  case True
  then show ?thesis by (simp add: extract_name_from_email_def)
next
  case False
  have t: "title (local_part em) \<noteq> []"
    using assms by simp
  have c: "\<not> search_lower_upper (title (local_part em))"
    unfolding title_def by (rule title_from_no_camel)
  have "smart_split_name (title (local_part em)) \<noteq> []"
    using t c by (rule smart_split_name_not_Nil)
  then have "name_from_local_part (\<lambda>lp. smart_split_name (title lp)) (local_part em) \<noteq> []"
    using assms local_part_last [OF assms] by (intro name_from_local_part_not_Nil) auto
  with False show ?thesis by (simp add: extract_name_from_email_def)
qed

lemma attendee_extract_name_from_email_not_Nil:
  assumes "local_part em \<noteq> []"
  shows "attendee_extract_name_from_email em \<noteq> []"
proof (cases "em = []")
  case True
  then show ?thesis by (simp add: attendee_extract_name_from_email_def)
next
  case False
  have "name_from_local_part title (local_part em) \<noteq> []"
    using assms local_part_last [OF assms] by (intro name_from_local_part_not_Nil) auto
  with False show ?thesis by (simp add: attendee_extract_name_from_email_def)
qed

lemma smart_split_name_Nil: "smart_split_name [] = []"
  by (simp add: smart_split_name_def common_prefixes_def common_locations_def lower_def contains_def)

lemma extract_name_from_email_Nil:
  "em \<noteq> [] \<Longrightarrow> local_part em = [] \<Longrightarrow> extract_name_from_email em = []"
  by (simp add: extract_name_from_email_def name_from_local_part_def title_def smart_split_name_Nil)

lemma attendee_extract_name_from_email_Nil:
  "em \<noteq> [] \<Longrightarrow> local_part em = [] \<Longrightarrow> attendee_extract_name_from_email em = []"
  by (simp add: attendee_extract_name_from_email_def name_from_local_part_def title_def)

lemma new_AttendeeInfo_display_name:
  "display_name (new_AttendeeInfo nm em) =
     (if nm \<noteq> [] then nm else if em \<noteq> [] then attendee_extract_name_from_email em else ''Unknown'')"
  by (simp add: new_AttendeeInfo_def)

lemma lookup_name_keeps: "nm \<noteq> [] \<Longrightarrow> lookup_name service em nm = nm"
  by (simp add: lookup_name_def)

section \<open>Display names of attendees\<close>

text \<open>
  Where the display name is not empty: an \<open>AttendeeInfo\<close> that either builder constructs
  has a non-empty display name whenever the payload gives the attendee a name, or the
  email's local part is not empty after its trailing digits and then its trailing
  separators are removed.
\<close>

theorem display_name_not_empty:
  assumes built: "extract_one_attendee attendee = Some info
      \<or> extract_one_attendee_enhanced people_service gmail_service attendee = Some info"
    and given: "attendee_field_name attendee \<noteq> [] \<or> local_part (email info) \<noteq> []"
  shows "display_name info \<noteq> []"
proof -
  from built obtain nm where info: "info = new_AttendeeInfo nm (email info)"
    and em: "email info \<noteq> []"
    and nm: "attendee_field_name attendee \<noteq> [] \<longrightarrow> nm \<noteq> []"
    and fallback: "nm = [] \<longrightarrow> extract_name_from_email (email info) = []"
  proof
    assume "extract_one_attendee attendee = Some info"
    then show ?thesis
      by (intro that [of "name info"])
         (auto simp: extract_one_attendee_def Let_def new_AttendeeInfo_def split: if_splits)
  next
    assume "extract_one_attendee_enhanced people_service gmail_service attendee = Some info"
    then show ?thesis
      by (intro that [of "name info"])
         (auto simp: extract_one_attendee_enhanced_def Let_def new_AttendeeInfo_def lookup_name_keeps
               split: if_splits)
  qed
  show ?thesis
  proof (cases "nm = []")
    case False
    then show ?thesis by (subst info) (simp add: new_AttendeeInfo_display_name)
  next
    case True
    with nm given have lp: "local_part (email info) \<noteq> []" by auto
    from True fallback have "extract_name_from_email (email info) = []" by simp
    with extract_name_from_email_not_Nil [OF lp] show ?thesis by simp
  qed
qed

text \<open>The attendee \<open>jsmith42@example.com\<close> without any name field is displayed as
  \<open>Jsmith\<close>.\<close>

theorem display_name_not_empty_witness:
  "extract_one_attendee
       \<lparr>raw_email = Some ''jsmith42@example.com'', raw_displayName = None, raw_name = None, raw_cn = None\<rparr>
     = Some \<lparr>name = ''Jsmith'', email = ''jsmith42@example.com'', display_name = ''Jsmith''\<rparr>
   \<and> local_part ''jsmith42@example.com'' = ''jsmith''
   \<and> display_name \<lparr>name = ''Jsmith'', email = ''jsmith42@example.com'', display_name = ''Jsmith''\<rparr> \<noteq> []"
proof -
  let ?a = "\<lparr>raw_email = Some ''jsmith42@example.com'', raw_displayName = None, raw_name = None, raw_cn = None\<rparr>"
  let ?i = "\<lparr>name = ''Jsmith'', email = ''jsmith42@example.com'', display_name = ''Jsmith''\<rparr>"
  have built: "extract_one_attendee ?a = Some ?i" by code_simp
  have lp: "local_part ''jsmith42@example.com'' = ''jsmith''" by code_simp
  have given: "attendee_field_name ?a \<noteq> [] \<or> local_part (email ?i) \<noteq> []"
    using lp by simp
  have "display_name ?i \<noteq> []"
    using display_name_not_empty [of ?a ?i, OF disjI1 [OF built] given] .
  with built lp show ?thesis by simp
qed

text \<open>
  Claim C1: the display name of every \<open>AttendeeInfo\<close> that the builder constructs is not
  empty, in particular for every email with a non-empty local part. The code misses the
  local part that consists of digits: the local part of \<open>123@example.com\<close> is \<open>123\<close>,
  nothing is left of it once the trailing digits are removed, and the builder constructs
  an \<open>AttendeeInfo\<close> whose name and display name are empty, although both
  \<open>__post_init__\<close> and \<open>_extract_name_from_email\<close> fall back to \<open>Unknown\<close> when
  there is no email to build a name from.
\<close>

theorem digits_only_display_name_empty:
  "split_str CHR ''@'' ''123@example.com'' = [''123'', ''example.com'']
   \<and> extract_one_attendee
       \<lparr>raw_email = Some ''123@example.com'', raw_displayName = None, raw_name = None, raw_cn = None\<rparr>
     = Some \<lparr>name = [], email = ''123@example.com'', display_name = []\<rparr>"
  by code_simp

section \<open>Camel case\<close>

text \<open>
  Claim C2. The local part \<open>johnSmith\<close> has a small letter followed by a capital, and the
  claim says that the heuristic returns \<open>John Smith\<close> for it. The code returns
  \<open>Johnsmith\<close>: \<open>_extract_name_from_email\<close> applies \<open>title()\<close> before
  \<open>_smart_split_name\<close> looks for the boundary.
\<close>

theorem camel_case_not_split:
  "search_lower_upper ''johnSmith''
   \<and> extract_name_from_email ''johnSmith@example.com'' = ''Johnsmith''"
  by code_simp

section \<open>Local parts with dots\<close>

text \<open>
  Claim C9, as amended. For an email whose local part, after the trailing digits and
  separators are removed, contains a dot: with exactly two parts, a one-character first
  part is upper-cased and followed by the title-cased last part, and otherwise both parts
  are title-cased, with one space between the two in either case; with three or more
  parts, the empty parts are dropped and the others are title-cased and joined with single
  spaces.
\<close>

theorem dot_rule:
  assumes "em \<noteq> []" and "CHR ''.'' \<in> set (local_part em)"
  shows "extract_name_from_email em =
     (case split_str CHR ''.'' (local_part em) of
        [first_part, last_part] \<Rightarrow>
          (if length first_part = 1 then upper first_part @ '' '' @ title last_part
           else title first_part @ '' '' @ title last_part)
      | parts \<Rightarrow> join '' '' (map title (filter (\<lambda>part. part \<noteq> []) parts)))"
  using assms
  by (simp add: extract_name_from_email_def name_from_local_part_def join_titles_def
           split: list.splits)

text \<open>\<open>j.smith\<close> gives \<open>J Smith\<close>.\<close>

theorem dot_rule_witness:
  "''j.smith@example.com'' \<noteq> [] \<and> CHR ''.'' \<in> set (local_part ''j.smith@example.com'')
   \<and> extract_name_from_email ''j.smith@example.com'' = ''J Smith''"
proof -
  have ne: "''j.smith@example.com'' \<noteq> []" by simp
  have dot: "CHR ''.'' \<in> set (local_part ''j.smith@example.com'')" by code_simp
  have rhs: "(case split_str CHR ''.'' (local_part ''j.smith@example.com'') of
        [first_part, last_part] \<Rightarrow>
          (if length first_part = 1 then upper first_part @ '' '' @ title last_part
           else title first_part @ '' '' @ title last_part)
      | parts \<Rightarrow> join '' '' (map title (filter (\<lambda>part. part \<noteq> []) parts))) = ''J Smith''"
    by code_simp
  show ?thesis
    using dot_rule [OF ne dot] rhs dot by simp
qed

text \<open>
  Claim C9 as it is stated fails on \<open>a..b\<close>: its three dot-separated parts are \<open>a\<close>,
  the empty string and \<open>b\<close>; title-cased and joined with single spaces they give \<open>A\<close>,
  two spaces and \<open>B\<close>, and the code returns \<open>A B\<close> with one space.
\<close>

theorem dot_rule_counterexample:
  "local_part ''a..b@example.com'' = ''a..b''
   \<and> CHR ''.'' \<in> set ''a..b''
   \<and> dot_rule_as_stated ''a..b'' = ''A  B''
   \<and> extract_name_from_email ''a..b@example.com'' = ''A B''"
  by code_simp

section \<open>Attendees without an email\<close>

lemma emails_map_filter:
  "map email (List.map_filter extract_one_attendee as) =
     filter (\<lambda>e. e \<noteq> []) (map (\<lambda>a. dict_get (raw_email a) []) as)"
  by (induction as)
     (auto simp: map_filter_simps extract_one_attendee_def Let_def new_AttendeeInfo_def)

lemma emails_map_filter_enhanced:
  "map email (List.map_filter (extract_one_attendee_enhanced ps gs) as) =
     filter (\<lambda>e. e \<noteq> []) (map (\<lambda>a. dict_get (raw_email a) []) as)"
  by (induction as)
     (auto simp: map_filter_simps extract_one_attendee_enhanced_def Let_def new_AttendeeInfo_def)

text \<open>
  Claim C6. An attendee whose email is absent is skipped: the loop body builds nothing for
  it. The builder is a total function, so it returns for every payload, and the emails of
  the attendees it returns are the emails of the payload that are present and not empty,
  in the order of the payload.
\<close>

theorem absent_email_skipped:
  "(raw_email attendee = None \<longrightarrow> extract_one_attendee attendee = None)
   \<and> map email (fst (extract_attendee_info event)) =
       filter (\<lambda>e. e \<noteq> []) (map (\<lambda>a. dict_get (raw_email a) []) (dict_get (ev_attendees event) []))"
  by (simp add: extract_attendee_info_def emails_map_filter extract_one_attendee_def dict_get_def)

text \<open>Of three attendees, the one without an email is left out and the two others keep
  their order.\<close>

theorem absent_email_skipped_witness:
  "raw_email \<lparr>raw_email = None, raw_displayName = Some ''Ann'', raw_name = None, raw_cn = None\<rparr> = None
   \<and> extract_one_attendee \<lparr>raw_email = None, raw_displayName = Some ''Ann'', raw_name = None, raw_cn = None\<rparr> = None
   \<and> map email (fst (extract_attendee_info
        \<lparr>ev_organizer = None,
         ev_attendees = Some
           [\<lparr>raw_email = Some ''bob@example.com'', raw_displayName = None, raw_name = None, raw_cn = None\<rparr>,
            \<lparr>raw_email = None, raw_displayName = Some ''Ann'', raw_name = None, raw_cn = None\<rparr>,
            \<lparr>raw_email = Some ''al@example.com'', raw_displayName = Some ''Al'', raw_name = None, raw_cn = None\<rparr>]\<rparr>))
     = [''bob@example.com'', ''al@example.com'']"
proof -
  let ?a = "\<lparr>raw_email = None, raw_displayName = Some ''Ann'', raw_name = None, raw_cn = None\<rparr>"
  let ?ev = "\<lparr>ev_organizer = None,
         ev_attendees = Some
           [\<lparr>raw_email = Some ''bob@example.com'', raw_displayName = None, raw_name = None, raw_cn = None\<rparr>,
            ?a,
            \<lparr>raw_email = Some ''al@example.com'', raw_displayName = Some ''Al'', raw_name = None, raw_cn = None\<rparr>]\<rparr>"
  have absent: "raw_email ?a = None" by simp
  from absent_email_skipped [of ?a ?ev] absent
  show ?thesis by (simp add: dict_get_def)
qed

section \<open>The organizer\<close>

text \<open>
  Claim C7, as amended. For an event whose organizer record has no email, no
  \<open>displayName\<close> and no \<open>name\<close> (absent or empty), both builders return the empty
  string as the organizer name and as the organizer email.
\<close>

theorem organizer_without_fields:
  assumes "organizer_info = dict_get (ev_organizer event) empty_organizer"
    and "dict_get (org_email organizer_info) [] = []"
    and "dict_get (org_displayName organizer_info) [] = []"
    and "dict_get (org_name organizer_info) [] = []"
  shows "snd (extract_attendee_info event) = ([], [])
       \<and> snd (extract_attendee_info_enhanced people_service gmail_service event) = ([], [])"
  using assms
  by (simp add: extract_attendee_info_def extract_organizer_def
        extract_attendee_info_enhanced_def extract_organizer_enhanced_def Let_def)

text \<open>An event without the key \<open>organizer\<close>.\<close>

theorem organizer_without_fields_witness:
  "snd (extract_attendee_info \<lparr>ev_organizer = None, ev_attendees = None\<rparr>) = ([], [])
   \<and> snd (extract_attendee_info_enhanced None None \<lparr>ev_organizer = None, ev_attendees = None\<rparr>) = ([], [])"
proof -
  let ?ev = "\<lparr>ev_organizer = None, ev_attendees = None\<rparr>"
  have o: "empty_organizer = dict_get (ev_organizer ?ev) empty_organizer"
    by (simp add: dict_get_def)
  have e: "dict_get (org_email empty_organizer) [] = []"
    and d: "dict_get (org_displayName empty_organizer) [] = []"
    and n: "dict_get (org_name empty_organizer) [] = []"
    by (simp_all add: dict_get_def empty_organizer_def)
  show ?thesis
    using organizer_without_fields [OF o e d n, of None None] .
qed

text \<open>
  Claim C7 as it is stated fails: for an organizer record without any field the organizer
  name is the empty string, not \<open>Unknown\<close>. The email heuristic, which knows that word,
  is only called for a non-empty organizer email.
\<close>

theorem organizer_not_unknown_counterexample:
  "extract_attendee_info
      \<lparr>ev_organizer = Some \<lparr>org_email = None, org_displayName = None, org_name = None\<rparr>,
       ev_attendees = None\<rparr> = ([], [], [])
   \<and> ([] :: string) \<noteq> ''Unknown''"
  by code_simp

section \<open>The From header\<close>

lemma last_dropWhile: "dropWhile P xs \<noteq> [] \<Longrightarrow> last (dropWhile P xs) = last xs"
proof -
  assume ne: "dropWhile P xs \<noteq> []"
  have "last xs = last (takeWhile P xs @ dropWhile P xs)" by simp
  also have "\<dots> = last (dropWhile P xs)" using ne by (rule last_appendR)
  finally show ?thesis by simp
qed

text \<open>\<open>strip\<close> removes every leading and every trailing character of the class: what is
  left neither starts nor ends with one.\<close>

lemma strip_where_ends:
  assumes "strip_where C s \<noteq> []"
  shows "\<not> C (hd (strip_where C s)) \<and> \<not> C (last (strip_where C s))"
proof -
  define t where "t = dropWhile C s"
  define u where "u = dropWhile C (rev t)"
  have strip: "strip_where C s = rev u"
    by (simp add: strip_where_def t_def u_def)
  have u: "u \<noteq> []" using assms strip by simp
  have t: "t \<noteq> []"
  proof
    assume "t = []"
    then have "u = []" by (simp add: u_def)
    with u show False by simp
  qed
  have "\<not> C (hd u)" using u unfolding u_def by (rule hd_dropWhile)
  then have l: "\<not> C (last (strip_where C s))"
    using u strip by (simp add: last_rev)
  have "last u = last (rev t)" using u unfolding u_def by (rule last_dropWhile)
  also have "\<dots> = hd t" using t by (simp add: last_rev)
  finally have "hd (strip_where C s) = hd t"
    using u strip by (simp add: hd_rev)
  moreover have "\<not> C (hd t)" using t unfolding t_def by (rule hd_dropWhile)
  ultimately show ?thesis using l by simp
qed

text \<open>
  Claim C8, as amended. For a From header that contains \<open><\<close> and \<open>>\<close>, let the name part
  be the text before the first \<open><\<close>, trimmed. If the name part is empty or equals the known
  email, the header yields no name. Otherwise every leading and trailing quote character
  (double or single, all layers, matched or not) is removed from it, and when what is left
  is not empty and differs from the known email, that is the name returned.
\<close>

theorem from_header_display_name:
  assumes "CHR ''<'' \<in> set from_field" and "CHR ''>'' \<in> set from_field"
    and "name_part = strip (takeWhile (\<lambda>c. c \<noteq> CHR ''<'') from_field)"
    and "stripped = strip_chars [CHR 0x22, CHR 0x27] name_part"
  shows "(name_part = [] \<or> name_part = em \<longrightarrow> parse_from_field from_field em = None)
       \<and> (name_part \<noteq> [] \<and> name_part \<noteq> em \<and> stripped \<noteq> [] \<and> stripped \<noteq> em
            \<longrightarrow> parse_from_field from_field em = Some stripped)"
proof -
  obtain rest where "split_str CHR ''<'' from_field = takeWhile (\<lambda>c. c \<noteq> CHR ''<'') from_field # rest"
    using split_str_first by blast
  with assms show ?thesis
    by (simp add: parse_from_field_def Let_def)
qed

text \<open>A quoted display name is returned without its quotes; a display part that is the
  known email yields nothing.\<close>

theorem from_header_display_name_witness:
  "parse_from_field ([CHR 0x22] @ ''Jane Doe'' @ [CHR 0x22] @ '' <jane@example.com>'') ''jane@example.com''
     = Some ''Jane Doe''
   \<and> parse_from_field ''jane@example.com <jane@example.com>'' ''jane@example.com'' = None"
proof -
  let ?f = "[CHR 0x22] @ ''Jane Doe'' @ [CHR 0x22] @ '' <jane@example.com>''"
  let ?g = "''jane@example.com <jane@example.com>''"
  let ?e = "''jane@example.com''"
  have f: "CHR ''<'' \<in> set ?f" "CHR ''>'' \<in> set ?f" by simp_all
  have g: "CHR ''<'' \<in> set ?g" "CHR ''>'' \<in> set ?g" by simp_all
  have nf: "[CHR 0x22] @ ''Jane Doe'' @ [CHR 0x22] = strip (takeWhile (\<lambda>c. c \<noteq> CHR ''<'') ?f)"
    by code_simp
  have sf: "''Jane Doe'' = strip_chars [CHR 0x22, CHR 0x27] ([CHR 0x22] @ ''Jane Doe'' @ [CHR 0x22])"
    by code_simp
  have ng: "?e = strip (takeWhile (\<lambda>c. c \<noteq> CHR ''<'') ?g)"
    by code_simp
  have sg: "?e = strip_chars [CHR 0x22, CHR 0x27] ?e"
    by code_simp
  have 1: "parse_from_field ?f ?e = Some ''Jane Doe''"
    using from_header_display_name [OF f nf sf, of ?e] by simp
  have 2: "parse_from_field ?g ?e = None"
    using from_header_display_name [OF g ng sg, of ?e] by simp
  from 1 2 show ?thesis by simp
qed

text \<open>
  Claim C8 as it is stated fails on a display name inside two layers of double quotes:
  one layer off leaves the name inside one pair of quotes, and the code returns the bare
  name.
\<close>

theorem from_header_counterexample:
  "parse_from_field
      ([CHR 0x22, CHR 0x22] @ ''John'' @ [CHR 0x22, CHR 0x22] @ '' <john@example.com>'')
      ''john@example.com'' = Some ''John''
   \<and> from_header_as_stated
      ([CHR 0x22, CHR 0x22] @ ''John'' @ [CHR 0x22, CHR 0x22] @ '' <john@example.com>'')
      ''john@example.com'' = Some ([CHR 0x22] @ ''John'' @ [CHR 0x22])"
  by code_simp

section \<open>A day without events\<close>

text \<open>
  Claim C5, as amended. For a day without events \<open>get_attendee_info_for_day\<close> returns a
  result, not an error: the dict whose only key is \<open>message\<close>, with the text "No events
  found for this date"; and the day's summary is the dict whose only key is \<open>summary\<close>,
  with the text "No events scheduled for this day". Neither carries a count of unique
  attendees.
\<close>

theorem no_events_message:
  "get_attendee_info_for_day target_date (day_events_of statistics target_date [])
     = Message ''No events found for this date''
   \<and> summary (day_events_of statistics target_date [])
     = [(''summary'', PStr ''No events scheduled for this day'')]"
  by (simp add: get_attendee_info_for_day_def day_events_of_def analyze_day_events_def)

text \<open>
  Claim C5 as it is stated fails: the result for a day without events has no key
  \<open>unique_attendees\<close>, and the summary has no key \<open>total_unique_attendees\<close>, so neither
  reports the count 0.
\<close>

theorem no_events_counterexample:
  "unique_attendees_of
     (get_attendee_info_for_day ''2024-01-15'' (day_events_of (\<lambda>ms d. []) ''2024-01-15'' [])) \<noteq> Some 0
   \<and> map_of (summary (day_events_of (\<lambda>ms d. []) ''2024-01-15'' [])) ''total_unique_attendees'' \<noteq> Some (PInt 0)"
  by (simp add: get_attendee_info_for_day_def day_events_of_def analyze_day_events_def)

section \<open>The dicts of a day\<close>

lemma fold_track_meeting:
  "fold track_meeting ms (counts, per_meeting) =
     (fold track_attendee (concat (map attendees ms)) counts,
      fold (\<lambda>m. AList.update (meeting_title m) (meeting_entry m)) ms per_meeting)"
  by (induction ms arbitrary: counts per_meeting) auto

lemma track_meetings_counts:
  "fst (track_meetings ms) = fold track_attendee (all_attendees ms) ([], [])"
  by (simp add: track_meetings_def fold_track_meeting all_attendees_def)

lemma track_meetings_per_meeting:
  "snd (track_meetings ms) = fold (\<lambda>m. AList.update (meeting_title m) (meeting_entry m)) ms []"
  by (simp add: track_meetings_def fold_track_meeting)

lemma fold_track_attendee_count:
  "e \<noteq> [] \<Longrightarrow>
   dict_get (map_of (fst (fold track_attendee as (f, n))) e) 0
     = dict_get (map_of f e) 0 + int (length (with_email e as))"
  by (induction as arbitrary: f n) (auto simp: update_conv' dict_get_def with_email_def)

lemma fold_track_attendee_keys:
  "fst ` set (fst (fold track_attendee as (f, n))) = fst ` set f \<union> {e \<in> email ` set as. e \<noteq> []}"
  by (induction as arbitrary: f n) (auto simp: dom_update)

lemma fold_track_attendee_frequency:
  assumes "e \<noteq> []" "with_email e as \<noteq> []"
  shows "map_of (fst (fold track_attendee as ([], []))) e = Some (int (length (with_email e as)))"
proof -
  let ?F = "fst (fold track_attendee as ([], []))"
  from assms(2) have "e \<in> email ` set as"
    by (auto simp: with_email_def filter_empty_conv)
  with assms(1) have "e \<in> fst ` set ?F"
    by (simp add: fold_track_attendee_keys)
  then obtain v where v: "map_of ?F e = Some v"
    by (metis map_of_eq_None_iff not_Some_eq)
  with fold_track_attendee_count [OF assms(1), of as "[]" "[]"] show ?thesis
    by (simp add: dict_get_def)
qed

lemma fold_track_attendee_name:
  "map_of (snd (fold track_attendee as (f, n))) e
     = (if e \<noteq> [] \<and> with_email e as \<noteq> [] then Some (display_name (last (with_email e as)))
        else map_of n e)"
  by (induction as arbitrary: f n) (auto simp: update_conv' with_email_def)

lemma fold_update_last:
  "map_of (fold (\<lambda>m. AList.update (key m) (val m)) ms d) k
     = (if filter (\<lambda>m. key m = k) ms \<noteq> [] then Some (val (last (filter (\<lambda>m. key m = k) ms)))
        else map_of d k)"
  by (induction ms arbitrary: d) (auto simp: update_conv')

lemma fold_update_distinct:
  "distinct (map fst d) \<Longrightarrow> distinct (map fst (fold (\<lambda>m. AList.update (key m) (val m)) ms d))"
  by (induction ms arbitrary: d) (auto simp: distinct_update)

lemma with_email_all_attendees:
  "with_email e (all_attendees ms) = concat (map (\<lambda>m. with_email e (attendees m)) ms)"
  by (induction ms) (auto simp: with_email_def all_attendees_def)

lemma length_with_email_all_attendees:
  "int (length (with_email e (all_attendees ms))) = (\<Sum>m\<leftarrow>ms. int (length (with_email e (attendees m))))"
  by (induction ms) (auto simp: with_email_def all_attendees_def)

lemma concat_map_Nil: "\<forall>m \<in> set ms. g m = [] \<Longrightarrow> concat (map g ms) = []"
  by (induction ms) auto

lemma get_attendee_info_for_day_Report:
  "ms \<noteq> [] \<Longrightarrow>
   get_attendee_info_for_day target_date (day_events_of statistics target_date ms) =
     Report
       \<lparr>r_date = target_date,
        r_total_meetings = int (length ms),
        r_unique_attendees = int (length (attendee_frequency_of ms)),
        r_meeting_attendee_details = meeting_attendee_mapping_of ms,
        r_most_frequent_attendees =
          frequent_attendees (attendee_frequency_of ms) (attendee_name_mapping_of ms),
        r_all_attendee_emails = map fst (attendee_frequency_of ms),
        r_all_attendee_names = map snd (attendee_name_mapping_of ms)\<rparr>"
  by (simp add: get_attendee_info_for_day_def day_events_of_def attendee_frequency_of_def
        attendee_name_mapping_of_def meeting_attendee_mapping_of_def split: prod.splits)

lemma distinct_keys_filter:
  "distinct (map fst d) \<Longrightarrow> map_of d k = Some v \<Longrightarrow> filter (\<lambda>entry. fst entry = k) d = [(k, v)]"
proof (induction d)
  case Nil
  then show ?case by simp
next
  case (Cons p d)
  show ?case
  proof (cases "fst p = k")
    case True
    with Cons.prems have "k \<notin> fst ` set d" by simp
    then have "\<forall>q \<in> set d. fst q \<noteq> k" by force
    then have "filter (\<lambda>entry. fst entry = k) d = []" by (simp add: filter_empty_conv)
    with True Cons.prems show ?thesis by (cases p) auto
  next
    case False
    with Cons show ?thesis by auto
  qed
qed

section \<open>An email in two meetings\<close>

text \<open>
  Claim C3. In a day's sequence of meetings, let an email (not empty) be carried by one
  attendee of an earlier meeting, displayed as \<open>A\<close>, by one attendee of a later meeting,
  displayed as \<open>B\<close>, and by no other attendee of the day. Then \<open>attendee_frequency\<close> has
  2 for the email and \<open>attendee_name_mapping\<close> has \<open>B\<close>: the later write wins.
\<close>

theorem last_write_wins:
  assumes "e \<noteq> []"
    and "ms = before @ m1 # between @ m2 # after"
    and "with_email e (attendees m1) = [a1]" and "display_name a1 = A"
    and "with_email e (attendees m2) = [a2]" and "display_name a2 = B"
    and "\<forall>m \<in> set (before @ between @ after). with_email e (attendees m) = []"
  shows "map_of (attendee_frequency_of ms) e = Some 2
       \<and> map_of (attendee_name_mapping_of ms) e = Some B"
proof -
  have b: "concat (map (\<lambda>m. with_email e (attendees m)) before) = []"
    using assms(7) by (intro concat_map_Nil) simp
  have c: "concat (map (\<lambda>m. with_email e (attendees m)) between) = []"
    using assms(7) by (intro concat_map_Nil) simp
  have d: "concat (map (\<lambda>m. with_email e (attendees m)) after) = []"
    using assms(7) by (intro concat_map_Nil) simp
  have occ: "with_email e (all_attendees ms) = [a1, a2]"
    unfolding with_email_all_attendees assms(2)
    by (simp add: b c d assms(3,5))
  have "map_of (fst (fold track_attendee (all_attendees ms) ([], []))) e = Some 2"
    using fold_track_attendee_frequency [of e "all_attendees ms"] assms(1) occ by simp
  moreover have "map_of (snd (fold track_attendee (all_attendees ms) ([], []))) e = Some B"
    using fold_track_attendee_name [of "all_attendees ms" "[]" "[]" e] assms(1,6) occ by simp
  ultimately show ?thesis
    by (simp add: attendee_frequency_of_def attendee_name_mapping_of_def track_meetings_counts)
qed

text \<open>The day of the specification's example: \<open>attendee@x.com\<close> as \<open>A\<close> in the first
  meeting and as \<open>B\<close> in the second.\<close>

theorem last_write_wins_witness:
  "map_of (attendee_frequency_of
       [\<lparr>meeting_title = ''Kickoff'', start_time = None,
         attendees = [\<lparr>name = ''A'', email = ''attendee@x.com'', display_name = ''A''\<rparr>],
         organizer_name = [], organizer_email = []\<rparr>,
        \<lparr>meeting_title = ''Review'', start_time = None,
         attendees = [\<lparr>name = ''B'', email = ''attendee@x.com'', display_name = ''B''\<rparr>],
         organizer_name = [], organizer_email = []\<rparr>]) ''attendee@x.com'' = Some 2
   \<and> map_of (attendee_name_mapping_of
       [\<lparr>meeting_title = ''Kickoff'', start_time = None,
         attendees = [\<lparr>name = ''A'', email = ''attendee@x.com'', display_name = ''A''\<rparr>],
         organizer_name = [], organizer_email = []\<rparr>,
        \<lparr>meeting_title = ''Review'', start_time = None,
         attendees = [\<lparr>name = ''B'', email = ''attendee@x.com'', display_name = ''B''\<rparr>],
         organizer_name = [], organizer_email = []\<rparr>]) ''attendee@x.com'' = Some ''B''"
proof -
  let ?a1 = "\<lparr>name = ''A'', email = ''attendee@x.com'', display_name = ''A''\<rparr>"
  let ?a2 = "\<lparr>name = ''B'', email = ''attendee@x.com'', display_name = ''B''\<rparr>"
  let ?m1 = "\<lparr>meeting_title = ''Kickoff'', start_time = None, attendees = [?a1],
              organizer_name = [], organizer_email = []\<rparr>"
  let ?m2 = "\<lparr>meeting_title = ''Review'', start_time = None, attendees = [?a2],
              organizer_name = [], organizer_email = []\<rparr>"
  have e: "''attendee@x.com'' \<noteq> []" by simp
  have ms: "[?m1, ?m2] = [] @ ?m1 # [] @ ?m2 # []" by simp
  have o1: "with_email ''attendee@x.com'' (attendees ?m1) = [?a1]" by (simp add: with_email_def)
  have o2: "with_email ''attendee@x.com'' (attendees ?m2) = [?a2]" by (simp add: with_email_def)
  have n1: "display_name ?a1 = ''A''" and n2: "display_name ?a2 = ''B''" by simp_all
  have others: "\<forall>m \<in> set ([] @ [] @ []). with_email ''attendee@x.com'' (attendees m) = []" by simp
  show ?thesis
    using last_write_wins [OF e ms o1 n1 o2 n2 others] .
qed

section \<open>Two meetings with one title\<close>

text \<open>
  Claim C10. When two meetings of a day have the same title and no later meeting has it,
  the report is returned and its per-meeting view has exactly one entry under that title,
  the one of the later meeting (attendee details, organizer and time); yet for every
  non-empty email \<open>attendee_frequency\<close> counts the attendees of all meetings, the earlier
  one included.
\<close>

theorem same_title_overwrites:
  assumes "ms = before @ m1 # between @ m2 # after"
    and "meeting_title m1 = meeting_title m2"
    and "\<forall>m \<in> set after. meeting_title m \<noteq> meeting_title m2"
  shows "\<exists>r. get_attendee_info_for_day target_date (day_events_of statistics target_date ms) = Report r
       \<and> map_of (r_meeting_attendee_details r) (meeting_title m2) = Some (meeting_entry m2)
       \<and> filter (\<lambda>entry. fst entry = meeting_title m2) (r_meeting_attendee_details r)
           = [(meeting_title m2, meeting_entry m2)]
       \<and> (\<forall>e. e \<noteq> [] \<longrightarrow>
            dict_get (map_of (attendee_frequency_of ms) e) 0
              = (\<Sum>m\<leftarrow>ms. int (length (with_email e (attendees m)))))"
proof -
  let ?t = "meeting_title m2"
  let ?d = "meeting_attendee_mapping_of ms"
  have ne: "ms \<noteq> []" using assms(1) by simp
  have "filter (\<lambda>m. meeting_title m = ?t) after = []"
    using assms(3) by (simp add: filter_empty_conv)
  then have last: "last (filter (\<lambda>m. meeting_title m = ?t) ms) = m2"
    and some: "filter (\<lambda>m. meeting_title m = ?t) ms \<noteq> []"
    unfolding assms(1) using assms(2) by simp_all
  have look: "map_of ?d ?t = Some (meeting_entry m2)"
    unfolding meeting_attendee_mapping_of_def track_meetings_per_meeting
    using fold_update_last [of meeting_title meeting_entry ms "[]" ?t] last some by simp
  have "distinct (map fst ?d)"
    unfolding meeting_attendee_mapping_of_def track_meetings_per_meeting
    by (rule fold_update_distinct) simp
  then have one: "filter (\<lambda>entry. fst entry = ?t) ?d = [(?t, meeting_entry m2)]"
    using look by (rule distinct_keys_filter)
  have freq: "dict_get (map_of (attendee_frequency_of ms) e) 0
      = (\<Sum>m\<leftarrow>ms. int (length (with_email e (attendees m))))" if "e \<noteq> []" for e
    using fold_track_attendee_count [OF that, of "all_attendees ms" "[]" "[]"]
    by (simp add: attendee_frequency_of_def track_meetings_counts dict_get_def
          length_with_email_all_attendees)
  show ?thesis
    using get_attendee_info_for_day_Report [OF ne, of target_date statistics] look one freq
    by simp
qed

text \<open>Two meetings called \<open>Standup\<close>, at 09:00 with Ann and at 16:30 with Bob: the view
  holds the second only, and the day has two unique attendees.\<close>

theorem same_title_overwrites_witness:
  "\<exists>r. get_attendee_info_for_day ''2024-01-15''
          (day_events_of (\<lambda>ms d. []) ''2024-01-15''
            [\<lparr>meeting_title = ''Standup'', start_time = Some \<lparr>hour = 9, minute = 0\<rparr>,
              attendees = [\<lparr>name = ''Ann'', email = ''ann@x.com'', display_name = ''Ann''\<rparr>],
              organizer_name = ''Ann'', organizer_email = ''ann@x.com''\<rparr>,
             \<lparr>meeting_title = ''Standup'', start_time = Some \<lparr>hour = 16, minute = 30\<rparr>,
              attendees = [\<lparr>name = ''Bob'', email = ''bob@x.com'', display_name = ''Bob''\<rparr>],
              organizer_name = ''Bob'', organizer_email = ''bob@x.com''\<rparr>]) = Report r
      \<and> r_meeting_attendee_details r =
          [(''Standup'',
            \<lparr>ma_attendees = [(''Bob'', ''bob@x.com'')], ma_attendee_names = [''Bob''],
             ma_attendee_emails = [''bob@x.com''], ma_organizer_name = ''Bob'',
             ma_organizer_email = ''bob@x.com'', ma_time = ''16:30''\<rparr>)]
      \<and> r_unique_attendees r = 2"
proof -
  let ?m1 = "\<lparr>meeting_title = ''Standup'', start_time = Some \<lparr>hour = 9, minute = 0\<rparr>,
              attendees = [\<lparr>name = ''Ann'', email = ''ann@x.com'', display_name = ''Ann''\<rparr>],
              organizer_name = ''Ann'', organizer_email = ''ann@x.com''\<rparr>"
  let ?m2 = "\<lparr>meeting_title = ''Standup'', start_time = Some \<lparr>hour = 16, minute = 30\<rparr>,
              attendees = [\<lparr>name = ''Bob'', email = ''bob@x.com'', display_name = ''Bob''\<rparr>],
              organizer_name = ''Bob'', organizer_email = ''bob@x.com''\<rparr>"
  have ms: "[?m1, ?m2] = [] @ ?m1 # [] @ ?m2 # []" by simp
  have t: "meeting_title ?m1 = meeting_title ?m2" by simp
  have after: "\<forall>m \<in> set []. meeting_title m \<noteq> meeting_title ?m2" by simp
  from same_title_overwrites [OF ms t after, of "''2024-01-15''" "\<lambda>ms d. []"]
  obtain r where r: "get_attendee_info_for_day ''2024-01-15''
        (day_events_of (\<lambda>ms d. []) ''2024-01-15'' [?m1, ?m2]) = Report r"
    and one: "filter (\<lambda>entry. fst entry = meeting_title ?m2) (r_meeting_attendee_details r)
        = [(meeting_title ?m2, meeting_entry ?m2)]"
    by blast
  have entry: "meeting_entry ?m2 =
      \<lparr>ma_attendees = [(''Bob'', ''bob@x.com'')], ma_attendee_names = [''Bob''],
       ma_attendee_emails = [''bob@x.com''], ma_organizer_name = ''Bob'',
       ma_organizer_email = ''bob@x.com'', ma_time = ''16:30''\<rparr>"
    by code_simp
  have rep: "get_attendee_info_for_day ''2024-01-15''
        (day_events_of (\<lambda>ms d. []) ''2024-01-15'' [?m1, ?m2]) =
     Report
       \<lparr>r_date = ''2024-01-15'', r_total_meetings = int (length [?m1, ?m2]),
        r_unique_attendees = int (length (attendee_frequency_of [?m1, ?m2])),
        r_meeting_attendee_details = meeting_attendee_mapping_of [?m1, ?m2],
        r_most_frequent_attendees =
          frequent_attendees (attendee_frequency_of [?m1, ?m2]) (attendee_name_mapping_of [?m1, ?m2]),
        r_all_attendee_emails = map fst (attendee_frequency_of [?m1, ?m2]),
        r_all_attendee_names = map snd (attendee_name_mapping_of [?m1, ?m2])\<rparr>"
    by (rule get_attendee_info_for_day_Report) simp
  have keys: "map fst (meeting_attendee_mapping_of [?m1, ?m2]) = [''Standup'']"
    by (simp add: meeting_attendee_mapping_of_def track_meetings_def)
  have u: "int (length (attendee_frequency_of [?m1, ?m2])) = 2"
    by (simp add: attendee_frequency_of_def track_meetings_def)
  from r rep have d: "r_meeting_attendee_details r = meeting_attendee_mapping_of [?m1, ?m2]"
    and ur: "r_unique_attendees r = int (length (attendee_frequency_of [?m1, ?m2]))"
    by auto
  have "\<forall>entry \<in> set (r_meeting_attendee_details r). fst entry = ''Standup''"
    using keys d by (metis (no_types, lifting) image_eqI list.set_map list.simps(15) empty_set singletonD)
  then have "filter (\<lambda>entry. fst entry = meeting_title ?m2) (r_meeting_attendee_details r)
      = r_meeting_attendee_details r"
    by simp
  with one entry have "r_meeting_attendee_details r =
      [(''Standup'',
        \<lparr>ma_attendees = [(''Bob'', ''bob@x.com'')], ma_attendee_names = [''Bob''],
         ma_attendee_emails = [''bob@x.com''], ma_organizer_name = ''Bob'',
         ma_organizer_email = ''bob@x.com'', ma_time = ''16:30''\<rparr>)]"
    by simp
  with r ur u show ?thesis by auto
qed

section \<open>The most frequent attendees\<close>

lemma track_attendee_keys:
  "map fst (fst (track_attendee a s)) =
     (if email a = [] \<or> email a \<in> set (map fst (fst s)) then map fst (fst s)
      else map fst (fst s) @ [email a])"
  by (cases s) (auto simp: update_keys)

lemma fold_track_attendee_set_keys:
  "set (map fst (fst (fold track_attendee as ([], [])))) = set (filter (\<lambda>e. e \<noteq> []) (map email as))"
  using fold_track_attendee_keys [of as "[]" "[]"] by auto

lemma keys_takeWhile:
  "set (takeWhile (\<lambda>z. z \<noteq> y) (map fst (fst (fold track_attendee as ([], [])))))
     = set (takeWhile (\<lambda>z. z \<noteq> y) (filter (\<lambda>e. e \<noteq> []) (map email as)))"
proof (induction as rule: rev_induct)
  case Nil
  show ?case by simp
next
  case (snoc a as)
  let ?K = "map fst (fst (fold track_attendee as ([], [])))"
  let ?E = "filter (\<lambda>e. e \<noteq> []) (map email as)"
  have sets: "set ?K = set ?E" by (rule fold_track_attendee_set_keys)
  have K': "map fst (fst (fold track_attendee (as @ [a]) ([], []))) =
      (if email a = [] \<or> email a \<in> set ?K then ?K else ?K @ [email a])"
    by (simp add: track_attendee_keys)
  show ?case
  proof (cases "email a = []")
    case True
    with snoc K' show ?thesis by simp
  next
    case False
    show ?thesis
    proof (cases "y \<in> set ?E")
      case True
      then have "takeWhile (\<lambda>z. z \<noteq> y) (?E @ [email a]) = takeWhile (\<lambda>z. z \<noteq> y) ?E"
        by (intro takeWhile_append1) auto
      moreover have "takeWhile (\<lambda>z. z \<noteq> y) (?K @ [email a]) = takeWhile (\<lambda>z. z \<noteq> y) ?K"
        using True sets by (intro takeWhile_append1) auto
      ultimately show ?thesis
        using snoc False unfolding K' by simp
    next
      case no: False
      then have E: "takeWhile (\<lambda>z. z \<noteq> y) (?E @ [email a]) = ?E @ takeWhile (\<lambda>z. z \<noteq> y) [email a]"
        by (intro takeWhile_append2) auto
      have K: "takeWhile (\<lambda>z. z \<noteq> y) (?K @ [email a]) = ?K @ takeWhile (\<lambda>z. z \<noteq> y) [email a]"
        using no sets by (intro takeWhile_append2) auto
      have K0: "takeWhile (\<lambda>z. z \<noteq> y) ?K = ?K"
        using no sets by (intro takeWhile_eq_all_conv [THEN iffD2]) auto
      show ?thesis
      proof (cases "email a \<in> set ?K")
        case True
        then have "email a \<noteq> y" using no sets by auto
        with True False sets show ?thesis
          unfolding K' by (simp add: E K0) auto
      next
        case False
        with \<open>email a \<noteq> []\<close> sets show ?thesis
          unfolding K' by (simp add: E K)
      qed
    qed
  qed
qed

lemma comes_before_keys:
  "comes_before x y (map fst (attendee_frequency_of ms)) \<longleftrightarrow> comes_before x y (encounter_order ms)"
  by (simp add: comes_before_def attendee_frequency_of_def track_meetings_counts
        encounter_order_def keys_takeWhile)

lemma distinct_attendee_frequency: "distinct (map fst (attendee_frequency_of ms))"
proof -
  have "distinct (map fst (fst (fold track_attendee as s)))" if "distinct (map fst (fst s))" for as s
    using that
  proof (induction as arbitrary: s)
    case Nil
    then show ?case by simp
  next
    case (Cons a as)
    have "distinct (map fst (fst (track_attendee a s)))"
      using Cons.prems by (cases s) (auto simp: distinct_update)
    then show ?case using Cons.IH by simp
  qed
  then show ?thesis
    by (simp add: attendee_frequency_of_def track_meetings_counts)
qed

lemma set_sorted_reverse [simp]: "set (sorted_reverse items) = set items"
  by (simp add: sorted_reverse_def)

lemma distinct_keys_sorted_reverse:
  "distinct (map fst items) \<Longrightarrow> distinct (map fst (sorted_reverse items))"
  by (simp add: sorted_reverse_def distinct_map)

lemma sorted_reverse_descending: "sorted_wrt (\<lambda>p q. snd p \<ge> snd q) (sorted_reverse items)"
proof -
  have "sorted (map snd (sort_key snd (rev items)))" by (rule sorted_sort_key)
  then have "sorted_wrt (\<lambda>p q. snd p \<le> snd q) (sort_key snd (rev items))"
    by (simp add: sorted_wrt_map)
  then show ?thesis
    by (simp add: sorted_reverse_def sorted_wrt_rev)
qed

lemma sorted_reverse_stable:
  "filter (\<lambda>p. snd p = c) (sorted_reverse items) = filter (\<lambda>p. snd p = c) items"
  by (simp add: sorted_reverse_def rev_filter [symmetric] sort_key_stable)

lemma keys_with_count:
  assumes "distinct (map fst items)"
  shows "filter (\<lambda>k. map_of items k = Some c) (map fst items) = map fst (filter (\<lambda>p. snd p = c) items)"
proof -
  have "map_of items (fst p) = Some c \<longleftrightarrow> snd p = c" if "p \<in> set items" for p
    using assms that by (cases p) auto
  then show ?thesis
    by (simp add: filter_map comp_def cong: filter_cong)
qed

lemma takeWhile_filter_neq:
  "P y \<Longrightarrow> takeWhile (\<lambda>z. z \<noteq> y) (filter P xs) = filter P (takeWhile (\<lambda>z. z \<noteq> y) xs)"
  by (induction xs) auto

lemma comes_before_stable:
  assumes "filter P ys = filter P xs" "P x" "P y" "comes_before x y xs"
  shows "comes_before x y ys"
proof -
  have 1: "takeWhile (\<lambda>z. z \<noteq> y) (filter P xs) = filter P (takeWhile (\<lambda>z. z \<noteq> y) xs)"
    using assms(3) by (rule takeWhile_filter_neq)
  have 2: "takeWhile (\<lambda>z. z \<noteq> y) (filter P ys) = filter P (takeWhile (\<lambda>z. z \<noteq> y) ys)"
    using assms(3) by (rule takeWhile_filter_neq)
  have "x \<in> set (filter P (takeWhile (\<lambda>z. z \<noteq> y) xs))"
    using assms(2,4) by (simp add: comes_before_def)
  then have "x \<in> set (takeWhile (\<lambda>z. z \<noteq> y) (filter P ys))"
    by (simp only: 1 [symmetric] assms(1))
  then have "x \<in> set (filter P (takeWhile (\<lambda>z. z \<noteq> y) ys))"
    by (simp only: 2)
  then show ?thesis by (simp add: comes_before_def)
qed

lemma comes_before_take:
  assumes "comes_before x y xs" "y \<in> set (take n xs)"
  shows "comes_before x y (take n xs)"
proof -
  have "takeWhile (\<lambda>z. z \<noteq> y) (take n xs @ drop n xs) = takeWhile (\<lambda>z. z \<noteq> y) (take n xs)"
    using assms(2) by (intro takeWhile_append1) auto
  with assms(1) show ?thesis by (simp add: comes_before_def)
qed

lemma comes_before_sorted_reverse:
  assumes d: "distinct (map fst items)"
    and x: "(x, c) \<in> set items" and y: "(y, c) \<in> set items"
    and b: "comes_before x y (map fst items)"
  shows "comes_before x y (map fst (sorted_reverse items))"
proof -
  let ?S = "sorted_reverse items"
  let ?Q = "\<lambda>k. map_of items k = Some c"
  have dS: "distinct (map fst ?S)" using d by (rule distinct_keys_sorted_reverse)
  have m: "map_of ?S = map_of items"
    using d dS by (simp add: map_of_inject_set)
  have "filter ?Q (map fst ?S) = map fst (filter (\<lambda>p. snd p = c) ?S)"
    using keys_with_count [OF dS, of c] by (simp add: m)
  also have "\<dots> = map fst (filter (\<lambda>p. snd p = c) items)"
    by (simp add: sorted_reverse_stable)
  also have "\<dots> = filter ?Q (map fst items)"
    using keys_with_count [OF d, of c] by simp
  finally have eq: "filter ?Q (map fst ?S) = filter ?Q (map fst items)" .
  have "?Q x" "?Q y" using d x y by auto
  with eq show ?thesis using b by (rule comes_before_stable)
qed

lemma frequent_attendees_emails:
  "map fa_email (frequent_attendees f n) = take 10 (map fst (sorted_reverse f))"
  by (simp add: frequent_attendees_def take_map case_prod_beta comp_def)

lemma frequent_attendees_counts:
  "map fa_meeting_count (frequent_attendees f n) = take 10 (map snd (sorted_reverse f))"
  by (simp add: frequent_attendees_def take_map case_prod_beta comp_def)

lemma frequent_attendees_member:
  "a \<in> set (frequent_attendees f n) \<Longrightarrow> (fa_email a, fa_meeting_count a) \<in> set f"
  by (auto simp: frequent_attendees_def dest!: in_set_takeD)

lemma frequent_attendees_descending:
  "sorted_wrt (\<lambda>a b. fa_meeting_count a \<ge> fa_meeting_count b) (frequent_attendees f n)"
proof -
  have "sorted_wrt (\<lambda>p q. snd p \<ge> snd q) (take 10 (sorted_reverse f))"
    using sorted_reverse_descending [of f] by (rule sorted_wrt_take)
  then show ?thesis
    by (simp add: frequent_attendees_def sorted_wrt_map case_prod_beta)
qed

text \<open>
  Claim C4. In the report of a day, the list of most frequent attendees is in descending
  order of the meeting count, and of two listed emails with the same count, the one met
  first in the loop over the meetings and their attendees is listed first. (The list
  holds the first ten entries of that order, and it is a function of the meetings.)
\<close>

theorem most_frequent_order:
  assumes "get_attendee_info_for_day target_date (day_events_of statistics target_date ms) = Report r"
  shows "sorted_wrt (\<lambda>a b. fa_meeting_count a \<ge> fa_meeting_count b) (r_most_frequent_attendees r)
       \<and> (\<forall>a \<in> set (r_most_frequent_attendees r). \<forall>b \<in> set (r_most_frequent_attendees r).
            fa_meeting_count a = fa_meeting_count b
              \<and> comes_before (fa_email a) (fa_email b) (encounter_order ms)
            \<longrightarrow> comes_before (fa_email a) (fa_email b) (map fa_email (r_most_frequent_attendees r)))"
proof -
  let ?f = "attendee_frequency_of ms"
  let ?view = "frequent_attendees ?f (attendee_name_mapping_of ms)"
  have ne: "ms \<noteq> []"
    using assms by (auto simp: get_attendee_info_for_day_def day_events_of_def)
  have view: "r_most_frequent_attendees r = ?view"
    using assms get_attendee_info_for_day_Report [OF ne, of target_date statistics] by auto
  have d: "distinct (map fst ?f)" by (rule distinct_attendee_frequency)
  have order: "comes_before (fa_email a) (fa_email b) (map fa_email ?view)"
    if a: "a \<in> set ?view" and b: "b \<in> set ?view"
      and c: "fa_meeting_count a = fa_meeting_count b"
      and e: "comes_before (fa_email a) (fa_email b) (encounter_order ms)" for a b
  proof -
    have xa: "(fa_email a, fa_meeting_count a) \<in> set ?f"
      using a by (rule frequent_attendees_member)
    have yb: "(fa_email b, fa_meeting_count a) \<in> set ?f"
      using frequent_attendees_member [OF b] c by simp
    have "comes_before (fa_email a) (fa_email b) (map fst ?f)"
      using e by (simp add: comes_before_keys)
    then have s: "comes_before (fa_email a) (fa_email b) (map fst (sorted_reverse ?f))"
      using d xa yb by (intro comes_before_sorted_reverse)
    have "fa_email b \<in> set (map fa_email ?view)" using b by simp
    then have "fa_email b \<in> set (take 10 (map fst (sorted_reverse ?f)))"
      by (simp only: frequent_attendees_emails)
    with s have "comes_before (fa_email a) (fa_email b) (take 10 (map fst (sorted_reverse ?f)))"
      by (rule comes_before_take)
    then show ?thesis by (simp only: frequent_attendees_emails)
  qed
  show ?thesis
    unfolding view using frequent_attendees_descending order by blast
qed

text \<open>With \<open>x\<close> and \<open>y\<close> in a first meeting and \<open>y\<close> and \<open>z\<close> in a second one, \<open>y\<close>
  leads with two meetings and \<open>x\<close> is listed before \<open>z\<close>.\<close>

theorem most_frequent_order_witness:
  "map fa_email
     (frequent_attendees
        (attendee_frequency_of
          [\<lparr>meeting_title = ''Kickoff'', start_time = None,
            attendees = [\<lparr>name = ''X'', email = ''x@e.com'', display_name = ''X''\<rparr>,
                         \<lparr>name = ''Y'', email = ''y@e.com'', display_name = ''Y''\<rparr>],
            organizer_name = [], organizer_email = []\<rparr>,
           \<lparr>meeting_title = ''Review'', start_time = None,
            attendees = [\<lparr>name = ''Y'', email = ''y@e.com'', display_name = ''Y''\<rparr>,
                         \<lparr>name = ''Z'', email = ''z@e.com'', display_name = ''Z''\<rparr>],
            organizer_name = [], organizer_email = []\<rparr>])
        (attendee_name_mapping_of
          [\<lparr>meeting_title = ''Kickoff'', start_time = None,
            attendees = [\<lparr>name = ''X'', email = ''x@e.com'', display_name = ''X''\<rparr>,
                         \<lparr>name = ''Y'', email = ''y@e.com'', display_name = ''Y''\<rparr>],
            organizer_name = [], organizer_email = []\<rparr>,
           \<lparr>meeting_title = ''Review'', start_time = None,
            attendees = [\<lparr>name = ''Y'', email = ''y@e.com'', display_name = ''Y''\<rparr>,
                         \<lparr>name = ''Z'', email = ''z@e.com'', display_name = ''Z''\<rparr>],
            organizer_name = [], organizer_email = []\<rparr>]))
     = [''y@e.com'', ''x@e.com'', ''z@e.com'']
   \<and> comes_before ''x@e.com'' ''z@e.com'' [''y@e.com'', ''x@e.com'', ''z@e.com'']"
proof -
  let ?ms = "[\<lparr>meeting_title = ''Kickoff'', start_time = None,
            attendees = [\<lparr>name = ''X'', email = ''x@e.com'', display_name = ''X''\<rparr>,
                         \<lparr>name = ''Y'', email = ''y@e.com'', display_name = ''Y''\<rparr>],
            organizer_name = [], organizer_email = []\<rparr>,
           \<lparr>meeting_title = ''Review'', start_time = None,
            attendees = [\<lparr>name = ''Y'', email = ''y@e.com'', display_name = ''Y''\<rparr>,
                         \<lparr>name = ''Z'', email = ''z@e.com'', display_name = ''Z''\<rparr>],
            organizer_name = [], organizer_email = []\<rparr>]"
  let ?view = "frequent_attendees (attendee_frequency_of ?ms) (attendee_name_mapping_of ?ms)"
  let ?x = "\<lparr>fa_name = ''X'', fa_email = ''x@e.com'', fa_meeting_count = 1\<rparr>"
  let ?z = "\<lparr>fa_name = ''Z'', fa_email = ''z@e.com'', fa_meeting_count = 1\<rparr>"
  have v: "?view = [\<lparr>fa_name = ''Y'', fa_email = ''y@e.com'', fa_meeting_count = 2\<rparr>, ?x, ?z]"
    by code_simp
  have enc: "comes_before ''x@e.com'' ''z@e.com'' (encounter_order ?ms)"
    by code_simp
  have rep: "get_attendee_info_for_day ''2024-01-15'' (day_events_of (\<lambda>ms d. []) ''2024-01-15'' ?ms) =
     Report
       \<lparr>r_date = ''2024-01-15'', r_total_meetings = int (length ?ms),
        r_unique_attendees = int (length (attendee_frequency_of ?ms)),
        r_meeting_attendee_details = meeting_attendee_mapping_of ?ms,
        r_most_frequent_attendees = ?view,
        r_all_attendee_emails = map fst (attendee_frequency_of ?ms),
        r_all_attendee_names = map snd (attendee_name_mapping_of ?ms)\<rparr>"
    by (rule get_attendee_info_for_day_Report) simp
  have "\<forall>a \<in> set ?view. \<forall>b \<in> set ?view.
            fa_meeting_count a = fa_meeting_count b
              \<and> comes_before (fa_email a) (fa_email b) (encounter_order ?ms)
            \<longrightarrow> comes_before (fa_email a) (fa_email b) (map fa_email ?view)"
    using most_frequent_order [OF rep] by simp
  moreover have "?x \<in> set ?view" "?z \<in> set ?view" by (simp_all only: v) simp_all
  ultimately have "fa_meeting_count ?x = fa_meeting_count ?z
              \<and> comes_before (fa_email ?x) (fa_email ?z) (encounter_order ?ms)
            \<longrightarrow> comes_before (fa_email ?x) (fa_email ?z) (map fa_email ?view)"
    by blast
  then have "comes_before ''x@e.com'' ''z@e.com'' (map fa_email ?view)"
    using enc by simp
  then show ?thesis by (simp only: v) simp
qed

end
